theory Spec2Isabelle
  imports Main "HOL-Library.Word"
begin

section \<open>Data model\<close>

text \<open>
  A JavaScript string is a sequence of UTF-16 code units; \<open>length\<close>, \<open>===\<close>,
  \<open>split\<close> and the regular expression class \<open>\s\<close> (no \<open>u\<close> flag) all work on code
  units. Strings are therefore lists of 16-bit words, and \<open>js\<close> writes an ASCII literal.
\<close>

type_synonym code_unit = "16 word"
type_synonym js_string = "code_unit list"

definition js :: "string \<Rightarrow> js_string" where
  "js s = map (\<lambda>c. of_nat (of_char c)) s"

text \<open>\<^verbatim>\<open>type ComparisonType = "Lines" | "Words" | "Characters"\<close>\<close>

datatype ComparisonType = Lines | Words | Characters

text \<open>The \<open>type\<close> field of \<open>DiffLine\<close> and of \<open>DiffBlock\<close>.\<close>

datatype DiffLineType = Added | Removed | Modified | Unchanged

datatype DiffBlockType = BlockChanged | BlockUnchanged

text \<open>
  \<open>interface DiffLine\<close>. The optional field \<open>isCollapsed\<close> is never written nor read
  by the component and is left out. Line numbers and indices are JavaScript numbers that
  start at 0 or 1 and only ever grow by 1, bounded by the array lengths, so they stay
  exact integers; they are natural numbers here.
\<close>

record DiffLine =
  line_type :: DiffLineType
  originalContent :: js_string
  modifiedContent :: js_string
  originalLineNumber :: nat
  modifiedLineNumber :: nat

text \<open>\<open>interface DiffBlock\<close>.\<close>

record DiffBlock =
  block_type :: DiffBlockType
  lines :: "DiffLine list"
  startLine :: nat
  endLine :: nat

section \<open>Tokenizer: \<open>splitText\<close>\<close>

text \<open>
  The code units matched by \<open>\s\<close>: the ECMAScript WhiteSpace and LineTerminator
  productions (TAB, LF, VT, FF, CR, SP, NBSP, U+1680, U+2000 to U+200A, U+2028, U+2029,
  U+202F, U+205F, U+3000, U+FEFF).
\<close>

definition isWhiteSpace :: "code_unit \<Rightarrow> bool" where
  "isWhiteSpace c \<longleftrightarrow>
     c = 0x0009 \<or> c = 0x000A \<or> c = 0x000B \<or> c = 0x000C \<or> c = 0x000D \<or> c = 0x0020 \<or>
     c = 0x00A0 \<or> c = 0x1680 \<or> (0x2000 \<le> c \<and> c \<le> 0x200A) \<or> c = 0x2028 \<or>
     c = 0x2029 \<or> c = 0x202F \<or> c = 0x205F \<or> c = 0x3000 \<or> c = 0xFEFF"

text \<open>
  \<open>text.split("\n")\<close>: the segments between the occurrences of the separator; \<open>cur\<close>
  holds the code units read since the last separator. The empty string gives one empty
  segment.
\<close>

fun split_newline :: "js_string \<Rightarrow> js_string \<Rightarrow> js_string list" where
  "split_newline cur [] = [cur]"
| "split_newline cur (c # cs) =
     (if c = 0x000A then cur # split_newline [] cs else split_newline (cur @ [c]) cs)"

text \<open>
  \<open>text.split(/\s+/)\<close> and \<open>text.split(/(\s+)/)\<close>: the matcher is tried at each
  position from the end of the last match; where \<open>\s+\<close> matches it takes the whole run of
  white space (the quantifier is greedy), the segment before it is pushed, then the
  captured run when the pattern has a capturing group (\<open>capture\<close>), and the scan resumes
  after the run. The rest of the string is pushed at the end. (The limit of
  \<open>2^32 - 1\<close> elements that \<open>split\<close> applies by default is more than the number of
  code units of any string, and is left out.)
\<close>

function split_whitespace :: "bool \<Rightarrow> js_string \<Rightarrow> js_string \<Rightarrow> js_string list" where
  "split_whitespace capture cur [] = [cur]"
| "split_whitespace capture cur (c # cs) =
     (if isWhiteSpace c
      then cur # (if capture then [c # takeWhile isWhiteSpace cs] else []) @
           split_whitespace capture [] (dropWhile isWhiteSpace cs)
      else split_whitespace capture (cur @ [c]) cs)"
  by pat_completeness auto
termination
  by (relation "measure (\<lambda>(capture, cur, s). length s)")
     (auto simp: length_dropWhile_le less_Suc_eq_le)

text \<open>
  \<open>splitText\<close> of \<open>components/SQLDiffHighlighter.tsx\<close>; \<open>Words\<close> splits with the
  capturing pattern \<open>/(\s+)/\<close>. The \<open>default\<close> branch is unreachable for a
  \<open>ComparisonType\<close>.
\<close>

fun splitText :: "js_string \<Rightarrow> ComparisonType \<Rightarrow> js_string list" where
  "splitText text Lines = split_newline [] text"
| "splitText text Words = filter (\<lambda>part. length part > 0) (split_whitespace True [] text)"
| "splitText text Characters = map (\<lambda>c. [c]) text"

text \<open>
  \<open>splitText\<close> of the second variant of the component (\<open>unnamed/part_000\<close>);
  \<open>Words\<close> splits with \<open>/\s+/\<close>, without a capturing group.
\<close>

fun splitText_part_000 :: "js_string \<Rightarrow> ComparisonType \<Rightarrow> js_string list" where
  "splitText_part_000 text Lines = split_newline [] text"
| "splitText_part_000 text Words =
     filter (\<lambda>word. length word > 0) (split_whitespace False [] text)"
| "splitText_part_000 text Characters = map (\<lambda>c. [c]) text"

section \<open>Aligner: \<open>computeDiff\<close>\<close>

text \<open>
  \<open>original[originalIndex] || ""\<close>: reading past the end of an array gives
  \<open>undefined\<close>, and \<open>||\<close> replaces \<open>undefined\<close> and the empty string (both falsy) by
  the empty string.
\<close>

definition item_or_empty :: "js_string list \<Rightarrow> nat \<Rightarrow> js_string" where
  "item_or_empty xs i = (if i < length xs \<and> xs ! i \<noteq> [] then xs ! i else [])"

text \<open>
  The \<open>while\<close> loop of \<open>computeDiff\<close>, one call per iteration, with the loop variables
  as arguments (the two line counters are primed, the plain names being the fields of
  \<open>DiffLine\<close>). \<open>comparisonType\<close> is the component's state variable, which the source
  reads from the enclosing scope.
\<close>

function computeDiff_loop ::
  "ComparisonType \<Rightarrow> js_string list \<Rightarrow> js_string list \<Rightarrow> DiffLine list \<Rightarrow>
   nat \<Rightarrow> nat \<Rightarrow> nat \<Rightarrow> nat \<Rightarrow> DiffLine list" where
  "computeDiff_loop comparisonType original modified result
     originalIndex modifiedIndex originalLineNumber' modifiedLineNumber' =
   (if originalIndex < length original \<or> modifiedIndex < length modified then
      let originalItem = item_or_empty original originalIndex;
          modifiedItem = item_or_empty modified modifiedIndex
      in
      if originalIndex \<ge> length original then
        computeDiff_loop comparisonType original modified
          (result @ [\<lparr>line_type = Added, originalContent = [],
                      modifiedContent = modifiedItem,
                      originalLineNumber = originalLineNumber',
                      modifiedLineNumber = modifiedLineNumber'\<rparr>])
          originalIndex (modifiedIndex + 1)
          originalLineNumber'
          (if comparisonType = Lines then modifiedLineNumber' + 1 else modifiedLineNumber')
      else if modifiedIndex \<ge> length modified then
        computeDiff_loop comparisonType original modified
          (result @ [\<lparr>line_type = Removed, originalContent = originalItem,
                      modifiedContent = [],
                      originalLineNumber = originalLineNumber',
                      modifiedLineNumber = modifiedLineNumber'\<rparr>])
          (originalIndex + 1) modifiedIndex
          (if comparisonType = Lines then originalLineNumber' + 1 else originalLineNumber')
          modifiedLineNumber'
      else if originalItem = modifiedItem then
        computeDiff_loop comparisonType original modified
          (result @ [\<lparr>line_type = Unchanged, originalContent = originalItem,
                      modifiedContent = modifiedItem,
                      originalLineNumber = originalLineNumber',
                      modifiedLineNumber = modifiedLineNumber'\<rparr>])
          (originalIndex + 1) (modifiedIndex + 1)
          (if comparisonType = Lines then originalLineNumber' + 1 else originalLineNumber')
          (if comparisonType = Lines then modifiedLineNumber' + 1 else modifiedLineNumber')
      else
        computeDiff_loop comparisonType original modified
          (result @ [\<lparr>line_type = Modified, originalContent = originalItem,
                      modifiedContent = modifiedItem,
                      originalLineNumber = originalLineNumber',
                      modifiedLineNumber = modifiedLineNumber'\<rparr>])
          (originalIndex + 1) (modifiedIndex + 1)
          (if comparisonType = Lines then originalLineNumber' + 1 else originalLineNumber')
          (if comparisonType = Lines then modifiedLineNumber' + 1 else modifiedLineNumber')
    else result)"
  by pat_completeness auto
termination
  by (relation "measure (\<lambda>(comparisonType, original, modified, result, originalIndex,
          modifiedIndex, originalLineNumber', modifiedLineNumber').
        (length original - originalIndex) + (length modified - modifiedIndex))")
     auto

declare computeDiff_loop.simps [simp del]

definition computeDiff ::
  "ComparisonType \<Rightarrow> js_string list \<Rightarrow> js_string list \<Rightarrow> DiffLine list" where
  "computeDiff comparisonType original modified =
     computeDiff_loop comparisonType original modified [] 0 0 1 1"

section \<open>Block grouper: \<open>groupDiffBlocks\<close>\<close>

text \<open>
  \<open>currentBlock\<close> is a reference to a block that is already in \<open>blocks\<close>; pushing a
  line through it changes that element of \<open>blocks\<close>. The array \<open>blocks\<close> is the store
  and the reference is \<open>null\<close> (\<open>None\<close>) or the position of the block in it.
\<close>

record group_state =
  blocks :: "DiffBlock list"
  currentBlock :: "nat option"

text \<open>The callback of \<open>diffLines.forEach\<close>.\<close>

definition group_line :: "group_state \<Rightarrow> DiffLine \<Rightarrow> group_state" where
  "group_line s line =
    (let isChanged = (line_type line \<noteq> Unchanged) in
     if isChanged then
       (case currentBlock s of
          None \<Rightarrow>
            \<lparr>blocks = blocks s @ [\<lparr>block_type = BlockChanged, lines = [line],
                                   startLine = originalLineNumber line,
                                   endLine = originalLineNumber line\<rparr>],
             currentBlock = Some (length (blocks s))\<rparr>
        | Some r \<Rightarrow>
            if block_type (blocks s ! r) = BlockUnchanged then
              \<lparr>blocks = blocks s @ [\<lparr>block_type = BlockChanged, lines = [line],
                                     startLine = originalLineNumber line,
                                     endLine = originalLineNumber line\<rparr>],
               currentBlock = Some (length (blocks s))\<rparr>
            else
              s\<lparr>blocks := (blocks s)[r := (blocks s ! r)
                    \<lparr>lines := lines (blocks s ! r) @ [line],
                     endLine := originalLineNumber line\<rparr>]\<rparr>)
     else
       (case currentBlock s of
          None \<Rightarrow>
            \<lparr>blocks = blocks s @ [\<lparr>block_type = BlockUnchanged, lines = [line],
                                   startLine = originalLineNumber line,
                                   endLine = originalLineNumber line\<rparr>],
             currentBlock = Some (length (blocks s))\<rparr>
        | Some r \<Rightarrow>
            if block_type (blocks s ! r) = BlockChanged then
              \<lparr>blocks = blocks s @ [\<lparr>block_type = BlockUnchanged, lines = [line],
                                     startLine = originalLineNumber line,
                                     endLine = originalLineNumber line\<rparr>],
               currentBlock = Some (length (blocks s))\<rparr>
            else
              s\<lparr>blocks := (blocks s)[r := (blocks s ! r)
                    \<lparr>lines := lines (blocks s ! r) @ [line],
                     endLine := originalLineNumber line\<rparr>]\<rparr>))"

definition groupDiffBlocks :: "DiffLine list \<Rightarrow> DiffBlock list" where
  "groupDiffBlocks diffLines =
     blocks (foldl group_line \<lparr>blocks = [], currentBlock = None\<rparr> diffLines)"

section \<open>The derived values \<open>diffResult\<close> and \<open>stats\<close>\<close>

text \<open>\<open>!originalSQL\<close> holds of a string exactly when it is empty.\<close>

definition diffResult :: "js_string \<Rightarrow> js_string \<Rightarrow> ComparisonType \<Rightarrow> DiffBlock list" where
  "diffResult originalSQL modifiedSQL comparisonType =
    (if originalSQL = [] \<and> modifiedSQL = [] then []
     else
       let originalParts = splitText originalSQL comparisonType;
           modifiedParts = splitText modifiedSQL comparisonType;
           diffLines = computeDiff comparisonType originalParts modifiedParts
       in groupDiffBlocks diffLines)"

record Stats =
  stats_added :: nat
  stats_removed :: nat
  stats_modified :: nat

definition count_type :: "DiffLineType \<Rightarrow> DiffBlock list \<Rightarrow> nat" where
  "count_type t bs =
     foldl (\<lambda>acc block. acc + length (filter (\<lambda>line. line_type line = t) (lines block))) 0 bs"

definition stats :: "DiffBlock list \<Rightarrow> Stats" where
  "stats bs = \<lparr>stats_added = count_type Added bs, stats_removed = count_type Removed bs,
               stats_modified = count_type Modified bs\<rparr>"

section \<open>Copying to the clipboard: \<open>handleCopy\<close>\<close>

text \<open>
  What \<open>handleCopy\<close> can touch: the component's state variables (from which
  \<open>diffResult\<close> and \<open>stats\<close> are derived), the system clipboard, the messages shown
  with \<open>alert\<close> and the entries written with \<open>console.error\<close>. \<open>'err\<close> is the type
  of the value an operation may throw or reject with.
\<close>

record 'err page =
  originalSQL :: js_string
  modifiedSQL :: js_string
  comparisonType :: ComparisonType
  showUnchanged :: bool
  clipboard :: js_string
  alerts :: "js_string list"
  console_errors :: "(js_string \<times> 'err) list"

text \<open>
  A statement maps the page to the page after it, together with \<open>Some err\<close> when it
  threw (or the awaited promise was rejected with) \<open>err\<close> and \<open>None\<close> when it completed.
  What a statement did before it threw stays done.
\<close>

type_synonym 'err statement = "'err page \<Rightarrow> 'err option \<times> 'err page"

definition seq :: "'err statement \<Rightarrow> 'err statement \<Rightarrow> 'err statement" where
  "seq first second w =
     (case first w of (Some err, w') \<Rightarrow> (Some err, w') | (None, w') \<Rightarrow> second w')"

definition try_catch :: "'err statement \<Rightarrow> ('err \<Rightarrow> 'err statement) \<Rightarrow> 'err statement" where
  "try_catch body handler w =
     (case body w of (Some err, w') \<Rightarrow> handler err w' | (None, w') \<Rightarrow> (None, w'))"

definition alert :: "js_string \<Rightarrow> 'err statement" where
  "alert message w = (None, w\<lparr>alerts := alerts w @ [message]\<rparr>)"

definition console_error :: "js_string \<Rightarrow> 'err \<Rightarrow> 'err statement" where
  "console_error message err w =
     (None, w\<lparr>console_errors := console_errors w @ [(message, err)]\<rparr>)"

text \<open>
  \<open>await navigator.clipboard.writeText(text)\<close>. Whether the browser lets the write through
  is not decided by the component: \<open>refusal text\<close> is \<open>Some err\<close> when the write of
  \<open>text\<close> fails with \<open>err\<close> (permission denied, no clipboard in this context), and
  then the clipboard keeps its content.
\<close>

definition clipboard_writeText :: "(js_string \<Rightarrow> 'err option) \<Rightarrow> js_string \<Rightarrow> 'err statement" where
  "clipboard_writeText refusal text w =
     (case refusal text of
        Some err \<Rightarrow> (Some err, w)
      | None \<Rightarrow> (None, w\<lparr>clipboard := text\<rparr>))"

definition handleCopy :: "(js_string \<Rightarrow> 'err option) \<Rightarrow> js_string \<Rightarrow> 'err statement" where
  "handleCopy refusal text =
     try_catch
       (seq (clipboard_writeText refusal text) (alert (js ''Copied to clipboard!'')))
       (\<lambda>err. seq (console_error (js ''Failed to copy:'') err)
                   (alert (js ''Failed to copy to clipboard'')))"

text \<open>The values the component derives from its state on every render.\<close>

definition page_diffResult :: "'err page \<Rightarrow> DiffBlock list" where
  "page_diffResult w = diffResult (originalSQL w) (modifiedSQL w) (comparisonType w)"

definition page_stats :: "'err page \<Rightarrow> Stats" where
  "page_stats w = stats (page_diffResult w)"

section \<open>Auxiliary notions for the proofs\<close>

text \<open>
  The value of a line counter after the given number of advances of its cursor, and the
  pair that the aligner emits at step \<open>k\<close> (counted from 0).
\<close>

definition line_number_at :: "ComparisonType \<Rightarrow> nat \<Rightarrow> nat" where
  "line_number_at ct advances = (if ct = Lines then advances + 1 else 1)"

definition pair_at :: "ComparisonType \<Rightarrow> js_string list \<Rightarrow> js_string list \<Rightarrow> nat \<Rightarrow> DiffLine" where
  "pair_at ct original modified k =
     \<lparr>line_type =
        (if length original \<le> k then Added
         else if length modified \<le> k then Removed
         else if original ! k = modified ! k then Unchanged
         else Modified),
      originalContent = (if k < length original then original ! k else []),
      modifiedContent = (if k < length modified then modified ! k else []),
      originalLineNumber = line_number_at ct (min k (length original)),
      modifiedLineNumber = line_number_at ct (min k (length modified))\<rparr>"

text \<open>
  The reference \<open>currentBlock\<close> is \<open>null\<close> while \<open>blocks\<close> is empty and points to the
  last block afterwards.
\<close>

definition group_inv :: "group_state \<Rightarrow> bool" where
  "group_inv s =
     (case currentBlock s of
        None \<Rightarrow> blocks s = []
      | Some r \<Rightarrow> blocks s \<noteq> [] \<and> r = length (blocks s) - 1)"

section \<open>The aligner in closed form\<close>

lemma item_or_empty_eq: "item_or_empty xs i = (if i < length xs then xs ! i else [])"
  by (simp add: item_or_empty_def)

text \<open>
  After \<open>k\<close> iterations the cursors stand at \<open>min k (length original)\<close> and
  \<open>min k (length modified)\<close>; from there the loop appends the pairs of the steps
  \<open>k\<close>, \<open>k + 1\<close>, ... up to the longer of the two lengths.
\<close>

lemma computeDiff_loop_closed:
  "computeDiff_loop ct original modified res
      (min k (length original)) (min k (length modified))
      (line_number_at ct (min k (length original)))
      (line_number_at ct (min k (length modified)))
   = res @ map (pair_at ct original modified) [k ..< max (length original) (length modified)]"
proof (induction "max (length original) (length modified) - k" arbitrary: k res)
  case 0
  then have "length original \<le> k" "length modified \<le> k" by auto
  then show ?case
    by (subst computeDiff_loop.simps) (simp add: min_absorb2)
next
  case (Suc n)
  then have lt: "k < max (length original) (length modified)"
    and n: "n = max (length original) (length modified) - Suc k" by auto
  have upt: "[k ..< max (length original) (length modified)]
             = k # [Suc k ..< max (length original) (length modified)]"
    using lt by (simp add: upt_conv_Cons)
  note IH = Suc.hyps(1)[OF n, of "res @ [pair_at ct original modified k]"]
  show ?case
  proof (cases "k < length original")
    case True
    note o = this
    show ?thesis
    proof (cases "k < length modified")
      case True
      have mins: "min k (length original) = k" "min k (length modified) = k"
        "min (Suc k) (length original) = Suc k" "min (Suc k) (length modified) = Suc k"
        using o True by auto
      show ?thesis
        apply (subst computeDiff_loop.simps)
        apply (subst upt)
        using o True IH
        apply (simp add: mins item_or_empty_eq Let_def)
        apply (auto simp: pair_at_def line_number_at_def mins)
        done
    next
      case False
      have mins: "min k (length original) = k" "min k (length modified) = length modified"
        "min (Suc k) (length original) = Suc k"
        "min (Suc k) (length modified) = length modified"
        using o False by auto
      show ?thesis
        apply (subst computeDiff_loop.simps)
        apply (subst upt)
        using o False IH
        apply (simp add: mins item_or_empty_eq Let_def)
        apply (auto simp: pair_at_def line_number_at_def mins)
        done
    qed
  next
    case False
    then have m: "k < length modified" using lt by auto
    have mins: "min k (length original) = length original" "min k (length modified) = k"
      "min (Suc k) (length original) = length original"
      "min (Suc k) (length modified) = Suc k"
      using m False by auto
    show ?thesis
      apply (subst computeDiff_loop.simps)
      apply (subst upt)
      using m False IH
      apply (simp add: mins item_or_empty_eq Let_def)
      apply (auto simp: pair_at_def line_number_at_def mins)
      done
  qed
qed

lemma computeDiff_closed:
  "computeDiff ct original modified
   = map (pair_at ct original modified) [0 ..< max (length original) (length modified)]"
  using computeDiff_loop_closed[of ct original modified "[]" 0]
  by (cases "ct = Lines") (simp_all add: computeDiff_def line_number_at_def)

lemma length_computeDiff:
  "length (computeDiff ct original modified) = max (length original) (length modified)"
  by (simp add: computeDiff_closed)

lemma nth_computeDiff:
  "k < max (length original) (length modified) \<Longrightarrow>
   computeDiff ct original modified ! k = pair_at ct original modified k"
  by (simp add: computeDiff_closed)

text \<open>
  One iteration of the loop, from any position of the two cursors at which a token is
  left on either side: which pair is appended and which cursor and counter move.
\<close>

lemma computeDiff_loop_step:
  assumes "originalIndex < length original \<or> modifiedIndex < length modified"
  shows "computeDiff_loop ct original modified result originalIndex modifiedIndex ol ml =
    (if length original \<le> originalIndex then
       computeDiff_loop ct original modified
         (result @ [\<lparr>line_type = Added, originalContent = [],
                     modifiedContent = modified ! modifiedIndex,
                     originalLineNumber = ol, modifiedLineNumber = ml\<rparr>])
         originalIndex (Suc modifiedIndex) ol (if ct = Lines then Suc ml else ml)
     else if length modified \<le> modifiedIndex then
       computeDiff_loop ct original modified
         (result @ [\<lparr>line_type = Removed, originalContent = original ! originalIndex,
                     modifiedContent = [],
                     originalLineNumber = ol, modifiedLineNumber = ml\<rparr>])
         (Suc originalIndex) modifiedIndex (if ct = Lines then Suc ol else ol) ml
     else
       computeDiff_loop ct original modified
         (result @ [\<lparr>line_type =
                       (if original ! originalIndex = modified ! modifiedIndex
                        then Unchanged else Modified),
                     originalContent = original ! originalIndex,
                     modifiedContent = modified ! modifiedIndex,
                     originalLineNumber = ol, modifiedLineNumber = ml\<rparr>])
         (Suc originalIndex) (Suc modifiedIndex)
         (if ct = Lines then Suc ol else ol) (if ct = Lines then Suc ml else ml))"
  using assms
  by (subst computeDiff_loop.simps) (auto simp: item_or_empty_eq Let_def)

section \<open>The aligner: one pair per step, chosen by the cursors\<close>

lemma computeDiff_nth_cases:
  assumes "k < length (computeDiff ct original modified)"
  shows "let p = computeDiff ct original modified ! k in
    (if length original \<le> k then
       k < length modified \<and> line_type p = Added \<and>
       originalContent p = [] \<and> modifiedContent p = modified ! k
     else if length modified \<le> k then
       line_type p = Removed \<and>
       originalContent p = original ! k \<and> modifiedContent p = []
     else if original ! k = modified ! k then
       line_type p = Unchanged \<and>
       originalContent p = original ! k \<and> modifiedContent p = modified ! k
     else
       line_type p = Modified \<and>
       originalContent p = original ! k \<and> modifiedContent p = modified ! k)"
proof -
  from assms have k: "k < max (length original) (length modified)"
    by (simp add: length_computeDiff)
  then show ?thesis
    by (auto simp: nth_computeDiff pair_at_def Let_def)
qed

text \<open>
  Claim C2. \<open>computeDiff\<close> starts the loop with both cursors at 0 (and both counters
  at 1). From any position of the cursors the loop stops when both sides are exhausted
  and otherwise appends one pair: when the original cursor is exhausted, an \<open>added\<close>
  pair with empty original content and the current modified token, and only the modified
  cursor advances; when the modified cursor is exhausted, a \<open>removed\<close> pair with the
  current original token and empty modified content, and only the original cursor
  advances; otherwise an \<open>unchanged\<close> pair when the two current tokens are equal and a
  \<open>modified\<close> pair of the two when they differ, and both cursors advance. As a result
  the pair emitted at step \<open>k\<close> is made from the tokens at position \<open>k\<close> of both sides,
  as long as each side has one.
\<close>

theorem computeDiff_pair_by_cursor:
  "computeDiff ct original modified = computeDiff_loop ct original modified [] 0 0 1 1 \<and>
   (\<forall>result oi mi ol ml.
      computeDiff_loop ct original modified result oi mi ol ml =
        (if length original \<le> oi \<and> length modified \<le> mi then result
         else if length original \<le> oi then
           computeDiff_loop ct original modified
             (result @ [\<lparr>line_type = Added, originalContent = [],
                         modifiedContent = modified ! mi,
                         originalLineNumber = ol, modifiedLineNumber = ml\<rparr>])
             oi (Suc mi) ol (if ct = Lines then Suc ml else ml)
         else if length modified \<le> mi then
           computeDiff_loop ct original modified
             (result @ [\<lparr>line_type = Removed, originalContent = original ! oi,
                         modifiedContent = [],
                         originalLineNumber = ol, modifiedLineNumber = ml\<rparr>])
             (Suc oi) mi (if ct = Lines then Suc ol else ol) ml
         else
           computeDiff_loop ct original modified
             (result @ [\<lparr>line_type =
                           (if original ! oi = modified ! mi then Unchanged else Modified),
                         originalContent = original ! oi,
                         modifiedContent = modified ! mi,
                         originalLineNumber = ol, modifiedLineNumber = ml\<rparr>])
             (Suc oi) (Suc mi)
             (if ct = Lines then Suc ol else ol) (if ct = Lines then Suc ml else ml))) \<and>
   (\<forall>k < length (computeDiff ct original modified).
      let p = computeDiff ct original modified ! k in
      (if length original \<le> k then
         k < length modified \<and> line_type p = Added \<and>
         originalContent p = [] \<and> modifiedContent p = modified ! k
       else if length modified \<le> k then
         line_type p = Removed \<and>
         originalContent p = original ! k \<and> modifiedContent p = []
       else if original ! k = modified ! k then
         line_type p = Unchanged \<and>
         originalContent p = original ! k \<and> modifiedContent p = modified ! k
       else
         line_type p = Modified \<and>
         originalContent p = original ! k \<and> modifiedContent p = modified ! k))"
proof (intro conjI allI impI)
  show "computeDiff ct original modified = computeDiff_loop ct original modified [] 0 0 1 1"
    by (simp add: computeDiff_def)
next
  fix result oi mi ol ml
  show "computeDiff_loop ct original modified result oi mi ol ml =
        (if length original \<le> oi \<and> length modified \<le> mi then result
         else if length original \<le> oi then
           computeDiff_loop ct original modified
             (result @ [\<lparr>line_type = Added, originalContent = [],
                         modifiedContent = modified ! mi,
                         originalLineNumber = ol, modifiedLineNumber = ml\<rparr>])
             oi (Suc mi) ol (if ct = Lines then Suc ml else ml)
         else if length modified \<le> mi then
           computeDiff_loop ct original modified
             (result @ [\<lparr>line_type = Removed, originalContent = original ! oi,
                         modifiedContent = [],
                         originalLineNumber = ol, modifiedLineNumber = ml\<rparr>])
             (Suc oi) mi (if ct = Lines then Suc ol else ol) ml
         else
           computeDiff_loop ct original modified
             (result @ [\<lparr>line_type =
                           (if original ! oi = modified ! mi then Unchanged else Modified),
                         originalContent = original ! oi,
                         modifiedContent = modified ! mi,
                         originalLineNumber = ol, modifiedLineNumber = ml\<rparr>])
             (Suc oi) (Suc mi)
             (if ct = Lines then Suc ol else ol) (if ct = Lines then Suc ml else ml))"
  proof (cases "oi < length original \<or> mi < length modified")
    case True
    from computeDiff_loop_step[OF True] True show ?thesis by auto
  next
    case False
    then show ?thesis by (subst computeDiff_loop.simps) auto
  qed
next
  fix k
  assume "k < length (computeDiff ct original modified)"
  then show "let p = computeDiff ct original modified ! k in
      (if length original \<le> k then
         k < length modified \<and> line_type p = Added \<and>
         originalContent p = [] \<and> modifiedContent p = modified ! k
       else if length modified \<le> k then
         line_type p = Removed \<and>
         originalContent p = original ! k \<and> modifiedContent p = []
       else if original ! k = modified ! k then
         line_type p = Unchanged \<and>
         originalContent p = original ! k \<and> modifiedContent p = modified ! k
       else
         line_type p = Modified \<and>
         originalContent p = original ! k \<and> modifiedContent p = modified ! k)"
    by (rule computeDiff_nth_cases)
qed

theorem computeDiff_pair_by_cursor_witness:
  "(let r = computeDiff Words [js ''a'', js ''b''] [js ''a'', js ''c'', js ''d''] in
      0 < length r \<and> 1 < length r \<and> 2 < length r \<and>
      line_type (r ! 0) = Unchanged \<and> line_type (r ! 1) = Modified \<and>
      originalContent (r ! 1) = js ''b'' \<and> modifiedContent (r ! 1) = js ''c'' \<and>
      line_type (r ! 2) = Added \<and>
      originalContent (r ! 2) = [] \<and> modifiedContent (r ! 2) = js ''d'')"
proof -
  let ?r = "computeDiff Words [js ''a'', js ''b''] [js ''a'', js ''c'', js ''d'']"
  have len: "0 < length ?r" "1 < length ?r" "2 < length ?r"
    by (simp_all add: length_computeDiff)
  from computeDiff_pair_by_cursor[of Words "[js ''a'', js ''b'']"
      "[js ''a'', js ''c'', js ''d'']"]
  have at: "k < length ?r \<Longrightarrow>
     (let p = ?r ! k in
      (if length [js ''a'', js ''b''] \<le> k then
         k < length [js ''a'', js ''c'', js ''d''] \<and> line_type p = Added \<and>
         originalContent p = [] \<and> modifiedContent p = [js ''a'', js ''c'', js ''d''] ! k
       else if length [js ''a'', js ''c'', js ''d''] \<le> k then
         line_type p = Removed \<and>
         originalContent p = [js ''a'', js ''b''] ! k \<and> modifiedContent p = []
       else if [js ''a'', js ''b''] ! k = [js ''a'', js ''c'', js ''d''] ! k then
         line_type p = Unchanged \<and>
         originalContent p = [js ''a'', js ''b''] ! k \<and>
         modifiedContent p = [js ''a'', js ''c'', js ''d''] ! k
       else
         line_type p = Modified \<and>
         originalContent p = [js ''a'', js ''b''] ! k \<and>
         modifiedContent p = [js ''a'', js ''c'', js ''d''] ! k))" for k
    by blast
  from at[OF len(1)] at[OF len(2)] at[OF len(3)] len
  show ?thesis by (simp add: Let_def js_def)
qed

section \<open>The aligner: number of pairs\<close>

text \<open>
  Claim C10. For every pair of token sequences (and every granularity), the aligner emits
  as many pairs as the longer of the two sequences has tokens: one pair per iteration,
  both cursors advancing while both sides have tokens and only the other one afterwards.
\<close>

theorem computeDiff_length_max:
  "length (computeDiff ct original modified) = max (length original) (length modified)"
  by (simp add: computeDiff_closed)

section \<open>The aligner: every token is kept\<close>

lemma filter_less_upt: "n \<le> m \<Longrightarrow> filter (\<lambda>j. j < n) [0 ..< m] = [0 ..< n]"
proof -
  assume "n \<le> m"
  then have "[0 ..< m] = [0 ..< n] @ [n ..< m]"
    by (metis le_add_diff_inverse upt_add_eq_append zero_le)
  then show ?thesis by (simp add: filter_empty_conv)
qed

lemma not_added_iff:
  "line_type (pair_at ct original modified j) \<noteq> Added \<longleftrightarrow> j < length original"
  by (auto simp: pair_at_def)

lemma not_removed_iff:
  "j < max (length original) (length modified) \<Longrightarrow>
   line_type (pair_at ct original modified j) \<noteq> Removed \<longleftrightarrow> j < length modified"
  by (auto simp: pair_at_def)

lemma filter_not_added:
  "k \<le> max (length original) (length modified) \<Longrightarrow>
   filter (\<lambda>p. line_type p \<noteq> Added) (map (pair_at ct original modified) [0 ..< k])
   = map (pair_at ct original modified) [0 ..< min k (length original)]"
proof -
  have "filter (\<lambda>p. line_type p \<noteq> Added) (map (pair_at ct original modified) [0 ..< k])
        = map (pair_at ct original modified) (filter (\<lambda>j. j < min k (length original)) [0 ..< k])"
    unfolding filter_map o_def
    by (rule arg_cong[where f = "map (pair_at ct original modified)"], rule filter_cong)
       (auto simp: not_added_iff)
  then show ?thesis
    using filter_less_upt[of "min k (length original)" k] by simp
qed

lemma filter_not_removed:
  assumes "k \<le> max (length original) (length modified)"
  shows "filter (\<lambda>p. line_type p \<noteq> Removed) (map (pair_at ct original modified) [0 ..< k])
   = map (pair_at ct original modified) [0 ..< min k (length modified)]"
proof -
  have "filter (\<lambda>p. line_type p \<noteq> Removed) (map (pair_at ct original modified) [0 ..< k])
        = map (pair_at ct original modified) (filter (\<lambda>j. j < min k (length modified)) [0 ..< k])"
    unfolding filter_map o_def
    by (rule arg_cong[where f = "map (pair_at ct original modified)"], rule filter_cong)
       (use assms in \<open>auto simp: not_removed_iff\<close>)
  then show ?thesis
    using filter_less_upt[of "min k (length modified)" k] by simp
qed

lemma take_computeDiff:
  "k \<le> max (length original) (length modified) \<Longrightarrow>
   take k (computeDiff ct original modified) = map (pair_at ct original modified) [0 ..< k]"
  by (simp add: computeDiff_closed take_map)

lemma original_side:
  "map originalContent (filter (\<lambda>p. line_type p \<noteq> Added) (computeDiff ct original modified))
   = original"
proof -
  have "map originalContent (map (pair_at ct original modified) [0 ..< length original])
        = map ((!) original) [0 ..< length original]"
    by (simp add: pair_at_def)
  then show ?thesis
    using filter_not_added[of "max (length original) (length modified)" original modified ct]
    by (simp add: computeDiff_closed map_nth)
qed

lemma modified_side:
  "map modifiedContent (filter (\<lambda>p. line_type p \<noteq> Removed) (computeDiff ct original modified))
   = modified"
proof -
  have "map modifiedContent (map (pair_at ct original modified) [0 ..< length modified])
        = map ((!) modified) [0 ..< length modified]"
    by (simp add: pair_at_def)
  then show ?thesis
    using filter_not_removed[of "max (length original) (length modified)" original modified ct]
    by (simp add: computeDiff_closed map_nth)
qed

lemma placeholders_empty:
  assumes "p \<in> set (computeDiff ct original modified)"
  shows "(line_type p = Added \<longrightarrow> originalContent p = []) \<and>
         (line_type p = Removed \<longrightarrow> modifiedContent p = [])"
  using assms by (auto simp: computeDiff_closed pair_at_def split: if_splits)

text \<open>Three runs of the tokenizer and the aligner, evaluated.\<close>

lemma computeDiff_example_added:
  "computeDiff Words (splitText (js ''a'') Words) (splitText (js ''a b'') Words) =
     [\<lparr>line_type = Unchanged, originalContent = js ''a'', modifiedContent = js ''a'',
      originalLineNumber = 1, modifiedLineNumber = 1\<rparr>,
      \<lparr>line_type = Added, originalContent = [], modifiedContent = js '' '',
      originalLineNumber = 1, modifiedLineNumber = 1\<rparr>,
      \<lparr>line_type = Added, originalContent = [], modifiedContent = js ''b'',
      originalLineNumber = 1, modifiedLineNumber = 1\<rparr>]"
  by (simp add: js_def isWhiteSpace_def computeDiff_closed pair_at_def line_number_at_def)

lemma computeDiff_example_removed:
  "computeDiff Words (splitText (js ''a b'') Words) (splitText (js ''a'') Words) =
     [\<lparr>line_type = Unchanged, originalContent = js ''a'', modifiedContent = js ''a'',
      originalLineNumber = 1, modifiedLineNumber = 1\<rparr>,
      \<lparr>line_type = Removed, originalContent = js '' '', modifiedContent = [],
      originalLineNumber = 1, modifiedLineNumber = 1\<rparr>,
      \<lparr>line_type = Removed, originalContent = js ''b'', modifiedContent = [],
      originalLineNumber = 1, modifiedLineNumber = 1\<rparr>]"
  by (simp add: js_def isWhiteSpace_def computeDiff_closed pair_at_def line_number_at_def)

lemma computeDiff_example_lines:
  "computeDiff Lines (splitText (js ''x\<newline>y\<newline>z'') Lines) (splitText (js ''x'') Lines) =
     [\<lparr>line_type = Unchanged, originalContent = js ''x'', modifiedContent = js ''x'',
      originalLineNumber = 1, modifiedLineNumber = 1\<rparr>,
      \<lparr>line_type = Removed, originalContent = js ''y'', modifiedContent = [],
      originalLineNumber = 2, modifiedLineNumber = 2\<rparr>,
      \<lparr>line_type = Removed, originalContent = js ''z'', modifiedContent = [],
      originalLineNumber = 3, modifiedLineNumber = 2\<rparr>]"
  by (simp add: js_def computeDiff_closed pair_at_def line_number_at_def)

text \<open>
  Claim C1. For all texts \<open>A\<close>, \<open>B\<close> and every granularity \<open>G\<close>, the pairs of
  \<open>computeDiff\<close> on the two token sequences hold every token of both sides once and in
  order. A placeholder is the empty content on the exhausted side: the original content
  of an \<open>added\<close> pair, the modified content of a \<open>removed\<close> pair (both are empty).
  The original contents of the other pairs are the tokens of \<open>A\<close>, and the modified
  contents of the other pairs are the tokens of \<open>B\<close>. Placeholders are told by the type
  of the pair and not by being empty, since under \<open>Lines\<close> an empty line is a token.
\<close>

theorem align_keeps_every_token:
  "map originalContent
     (filter (\<lambda>p. line_type p \<noteq> Added) (computeDiff G (splitText A G) (splitText B G)))
   = splitText A G \<and>
   map modifiedContent
     (filter (\<lambda>p. line_type p \<noteq> Removed) (computeDiff G (splitText A G) (splitText B G)))
   = splitText B G \<and>
   (\<forall>p \<in> set (computeDiff G (splitText A G) (splitText B G)).
      (line_type p = Added \<longrightarrow> originalContent p = []) \<and>
      (line_type p = Removed \<longrightarrow> modifiedContent p = []))"
  using original_side modified_side placeholders_empty by blast

theorem align_keeps_every_token_witness:
  "(let r = computeDiff Words (splitText (js ''a'') Words) (splitText (js ''a b'') Words) in
      splitText (js ''a'') Words = [js ''a''] \<and>
      splitText (js ''a b'') Words = [js ''a'', js '' '', js ''b''] \<and>
      length r = 3 \<and> r ! 2 \<in> set r \<and>
      line_type (r ! 2) = Added \<and> originalContent (r ! 2) = [] \<and>
      map originalContent (filter (\<lambda>p. line_type p \<noteq> Added) r)
        = splitText (js ''a'') Words \<and>
      map modifiedContent (filter (\<lambda>p. line_type p \<noteq> Removed) r)
        = splitText (js ''a b'') Words) \<and>
   (let r = computeDiff Words (splitText (js ''a b'') Words) (splitText (js ''a'') Words) in
      length r = 3 \<and> r ! 2 \<in> set r \<and>
      line_type (r ! 2) = Removed \<and> modifiedContent (r ! 2) = [])"
proof -
  let ?ab = "computeDiff Words (splitText (js ''a'') Words) (splitText (js ''a b'') Words)"
  let ?ba = "computeDiff Words (splitText (js ''a b'') Words) (splitText (js ''a'') Words)"
  have toks: "splitText (js ''a'') Words = [js ''a'']"
    "splitText (js ''a b'') Words = [js ''a'', js '' '', js ''b'']"
    by (simp_all add: js_def isWhiteSpace_def)
  have len: "length ?ab = 3" "length ?ba = 3"
    unfolding computeDiff_example_added computeDiff_example_removed by simp_all
  then have mem: "?ab ! 2 \<in> set ?ab" "?ba ! 2 \<in> set ?ba" by simp_all
  have ty: "line_type (?ab ! 2) = Added" "line_type (?ba ! 2) = Removed"
    unfolding computeDiff_example_added computeDiff_example_removed by simp_all
  from align_keeps_every_token[of Words "js ''a''" "js ''a b''"] mem(1) ty(1)
  have 1: "originalContent (?ab ! 2) = []"
    "map originalContent (filter (\<lambda>p. line_type p \<noteq> Added) ?ab)
       = splitText (js ''a'') Words"
    "map modifiedContent (filter (\<lambda>p. line_type p \<noteq> Removed) ?ab)
       = splitText (js ''a b'') Words"
    by blast+
  from align_keeps_every_token[of Words "js ''a b''" "js ''a''"] mem(2) ty(2)
  have 2: "modifiedContent (?ba ! 2) = []" by blast
  show ?thesis
    unfolding Let_def using toks len mem ty 1 2 by blast
qed

text \<open>
  Under \<open>Lines\<close> an empty line is a token like any other: here the second original
  content is the empty line of the text, in a \<open>removed\<close> pair, and not a placeholder.
\<close>

lemma empty_line_is_a_token:
  "splitText (js ''a\<newline>\<newline>b'') Lines = [js ''a'', [], js ''b''] \<and>
   map originalContent
     (computeDiff Lines (splitText (js ''a\<newline>\<newline>b'') Lines) (splitText (js ''a'') Lines))
   = [js ''a'', [], js ''b''] \<and>
   map line_type
     (computeDiff Lines (splitText (js ''a\<newline>\<newline>b'') Lines) (splitText (js ''a'') Lines))
   = [Unchanged, Removed, Removed]"
  by (simp add: js_def computeDiff_closed pair_at_def line_number_at_def)

section \<open>The aligner: position counters\<close>

text \<open>
  Claim C8. The original cursor advances in every step that emits a pair other than
  \<open>added\<close>, the modified cursor in every step that emits a pair other than \<open>removed\<close>.
  Under \<open>Lines\<close> the counter that a pair carries on each side is 1 plus the number of
  advances of that side's cursor in the steps before it (so the first pair carries 1 and
  1); under \<open>Words\<close> and \<open>Characters\<close> every pair carries 1 on both sides. The number
  of advances before step \<open>k\<close> is \<open>k\<close>, capped by the length of the side.
\<close>

theorem computeDiff_line_numbers:
  assumes "k < length (computeDiff ct original modified)"
  shows "originalLineNumber (computeDiff ct original modified ! k) =
           (if ct = Lines
            then 1 + length (filter (\<lambda>p. line_type p \<noteq> Added)
                               (take k (computeDiff ct original modified)))
            else 1) \<and>
         modifiedLineNumber (computeDiff ct original modified ! k) =
           (if ct = Lines
            then 1 + length (filter (\<lambda>p. line_type p \<noteq> Removed)
                               (take k (computeDiff ct original modified)))
            else 1) \<and>
         length (filter (\<lambda>p. line_type p \<noteq> Added) (take k (computeDiff ct original modified)))
           = min k (length original) \<and>
         length (filter (\<lambda>p. line_type p \<noteq> Removed) (take k (computeDiff ct original modified)))
           = min k (length modified)"
proof -
  from assms have k: "k < max (length original) (length modified)"
    by (simp add: length_computeDiff)
  then have le: "k \<le> max (length original) (length modified)" by simp
  have a: "length (filter (\<lambda>p. line_type p \<noteq> Added) (take k (computeDiff ct original modified)))
           = min k (length original)"
    by (simp add: take_computeDiff[OF le] filter_not_added[OF le])
  have r: "length (filter (\<lambda>p. line_type p \<noteq> Removed) (take k (computeDiff ct original modified)))
           = min k (length modified)"
    by (simp add: take_computeDiff[OF le] filter_not_removed[OF le])
  have o: "originalLineNumber (computeDiff ct original modified ! k)
           = (if ct = Lines then 1 + min k (length original) else 1)"
    by (simp add: nth_computeDiff[OF k] pair_at_def line_number_at_def)
  have m: "modifiedLineNumber (computeDiff ct original modified ! k)
           = (if ct = Lines then 1 + min k (length modified) else 1)"
    by (simp add: nth_computeDiff[OF k] pair_at_def line_number_at_def)
  show ?thesis
    unfolding a r using o m by simp
qed

theorem computeDiff_line_numbers_witness:
  "(let r = computeDiff Lines (splitText (js ''x\<newline>y\<newline>z'') Lines) (splitText (js ''x'') Lines) in
      0 < length r \<and> 2 < length r \<and>
      originalLineNumber (r ! 0) = 1 \<and> modifiedLineNumber (r ! 0) = 1 \<and>
      originalLineNumber (r ! 2) = 3 \<and> modifiedLineNumber (r ! 2) = 2) \<and>
   (let r = computeDiff Words (splitText (js ''a b'') Words) (splitText (js ''a'') Words) in
      2 < length r \<and> originalLineNumber (r ! 2) = 1 \<and> modifiedLineNumber (r ! 2) = 1)"
proof -
  let ?l = "computeDiff Lines (splitText (js ''x\<newline>y\<newline>z'') Lines) (splitText (js ''x'') Lines)"
  let ?w = "computeDiff Words (splitText (js ''a b'') Words) (splitText (js ''a'') Words)"
  have l: "0 < length ?l" "2 < length ?l" unfolding computeDiff_example_lines by simp_all
  have w: "2 < length ?w" unfolding computeDiff_example_removed by simp
  have c0: "length (filter (\<lambda>p. line_type p \<noteq> Added) (take 0 ?l)) = 0"
           "length (filter (\<lambda>p. line_type p \<noteq> Removed) (take 0 ?l)) = 0"
    by simp_all
  have c2: "length (filter (\<lambda>p. line_type p \<noteq> Added) (take 2 ?l)) = 2"
           "length (filter (\<lambda>p. line_type p \<noteq> Removed) (take 2 ?l)) = 1"
    unfolding computeDiff_example_lines by simp_all
  from computeDiff_line_numbers[OF l(1)] c0
  have n0: "originalLineNumber (?l ! 0) = 1" "modifiedLineNumber (?l ! 0) = 1" by simp_all
  from computeDiff_line_numbers[OF l(2)] c2
  have n2: "originalLineNumber (?l ! 2) = 3" "modifiedLineNumber (?l ! 2) = 2" by simp_all
  from computeDiff_line_numbers[OF w]
  have nw: "originalLineNumber (?w ! 2) = 1" "modifiedLineNumber (?w ! 2) = 1" by simp_all
  show ?thesis
    unfolding Let_def using l w n0 n2 nw by blast
qed

section \<open>The aligner: a text against itself\<close>

text \<open>
  Claim C6. For every text \<open>A\<close> and granularity \<open>G\<close>, every pair that \<open>computeDiff\<close>
  emits for the tokens of \<open>A\<close> against the same tokens is \<open>unchanged\<close>.
\<close>

theorem computeDiff_self_unchanged:
  "\<forall>p \<in> set (computeDiff G (splitText A G) (splitText A G)). line_type p = Unchanged"
  by (auto simp: computeDiff_closed pair_at_def)

theorem computeDiff_self_unchanged_witness:
  "(let r = computeDiff Lines (splitText (js ''SELECT 1\<newline>FROM t'') Lines)
                              (splitText (js ''SELECT 1\<newline>FROM t'') Lines) in
      length r = 2 \<and> r ! 0 \<in> set r \<and> r ! 1 \<in> set r \<and>
      line_type (r ! 0) = Unchanged \<and> line_type (r ! 1) = Unchanged)"
proof -
  let ?r = "computeDiff Lines (splitText (js ''SELECT 1\<newline>FROM t'') Lines)
                              (splitText (js ''SELECT 1\<newline>FROM t'') Lines)"
  have len: "length ?r = 2"
    by (simp add: length_computeDiff js_def)
  then have mem: "?r ! 0 \<in> set ?r" "?r ! 1 \<in> set ?r" by simp_all
  with computeDiff_self_unchanged[of Lines "js ''SELECT 1\<newline>FROM t''"]
  have "line_type (?r ! 0) = Unchanged" "line_type (?r ! 1) = Unchanged" by blast+
  with len mem show ?thesis unfolding Let_def by blast
qed

section \<open>The tokenizer\<close>

lemma split_whitespace_tokens:
  "\<forall>c \<in> set cur. \<not> isWhiteSpace c \<Longrightarrow> t \<in> set (split_whitespace capture cur s) \<Longrightarrow>
   (\<forall>c \<in> set t. \<not> isWhiteSpace c) \<or> (capture \<and> t \<noteq> [] \<and> (\<forall>c \<in> set t. isWhiteSpace c))"
proof (induction capture cur s rule: split_whitespace.induct)
  case (1 capture cur)
  then show ?case by simp
next
  case (2 capture cur c cs)
  show ?case
  proof (cases "isWhiteSpace c")
    case True
    with "2.prems" consider "t = cur" | "capture" "t = c # takeWhile isWhiteSpace cs"
      | "t \<in> set (split_whitespace capture [] (dropWhile isWhiteSpace cs))"
      by (auto split: if_splits)
    then show ?thesis
    proof cases
      case 1
      with "2.prems" show ?thesis by simp
    next
      case 2
      with True show ?thesis by (auto dest: set_takeWhileD)
    next
      case 3
      with "2.IH"(1)[OF True] show ?thesis by simp
    qed
  next
    case False
    with "2.prems" "2.IH"(2)[OF False] show ?thesis by simp
  qed
qed

lemma concat_split_whitespace: "concat (split_whitespace True cur s) = cur @ s"
  by (induction "True" cur s rule: split_whitespace.induct) simp_all

lemma concat_filter_nonempty: "concat (filter (\<lambda>xs. xs \<noteq> []) xss) = concat xss"
  by (induction xss) simp_all

lemma split_whitespace_no_capture:
  "\<forall>c \<in> set cur. \<not> isWhiteSpace c \<Longrightarrow>
   filter (\<lambda>t. t \<noteq> []) (split_whitespace False cur s)
   = filter (\<lambda>t. t \<noteq> [] \<and> \<not> isWhiteSpace (hd t)) (split_whitespace True cur s)"
proof (induction "False" cur s rule: split_whitespace.induct)
  case (1 cur)
  then show ?case by (cases cur) simp_all
next
  case (2 cur c cs)
  then show ?case by (cases cur) simp_all
qed

lemma successively_nth:
  "successively P xs \<Longrightarrow> Suc i < length xs \<Longrightarrow> P (xs ! i) (xs ! Suc i)"
proof (induction P xs arbitrary: i rule: successively.induct)
  case (3 P x y xs)
  then show ?case by (cases i) simp_all
qed simp_all

lemma hd_hd_concat:
  "ts \<noteq> [] \<Longrightarrow> hd ts \<noteq> [] \<Longrightarrow> hd (hd ts) = hd (concat ts)"
  by (cases ts) simp_all

lemma split_whitespace_alternates:
  "\<forall>c \<in> set cur. \<not> isWhiteSpace c \<Longrightarrow>
   successively (\<lambda>t u. isWhiteSpace (hd t) \<noteq> isWhiteSpace (hd u))
     (filter (\<lambda>t. t \<noteq> []) (split_whitespace True cur s))"
proof (induction "True" cur s rule: split_whitespace.induct)
  case (1 cur)
  then show ?case by simp
next
  case (2 cur c cs)
  show ?case
  proof (cases "isWhiteSpace c")
    case True
    let ?R = "filter (\<lambda>t. t \<noteq> []) (split_whitespace True [] (dropWhile isWhiteSpace cs))"
    have alt: "successively (\<lambda>t u. isWhiteSpace (hd t) \<noteq> isWhiteSpace (hd u)) ?R"
      using "2.hyps"(1)[OF True] by simp
    have hdR: "\<not> isWhiteSpace (hd (hd ?R))" if ne: "?R \<noteq> []"
    proof -
      from ne have "hd ?R \<in> set ?R" by (rule hd_in_set)
      then have "hd ?R \<noteq> []" by simp
      with ne have "hd (hd ?R) = hd (concat ?R)" by (rule hd_hd_concat)
      also have "concat ?R = dropWhile isWhiteSpace cs"
        by (simp add: concat_filter_nonempty concat_split_whitespace)
      finally have h: "hd (hd ?R) = hd (dropWhile isWhiteSpace cs)" .
      have "concat ?R \<noteq> []"
        unfolding concat_eq_Nil_conv using \<open>hd ?R \<in> set ?R\<close> \<open>hd ?R \<noteq> []\<close> by blast
      then have "dropWhile isWhiteSpace cs \<noteq> []"
        by (simp add: concat_filter_nonempty concat_split_whitespace)
      then show ?thesis unfolding h by (rule hd_dropWhile)
    qed
    have step: "successively (\<lambda>t u. isWhiteSpace (hd t) \<noteq> isWhiteSpace (hd u))
                  ((c # takeWhile isWhiteSpace cs) # ?R)"
      using alt hdR True by (auto simp: successively_Cons)
    show ?thesis
    proof (cases "cur = []")
      case True
      with step \<open>isWhiteSpace c\<close> show ?thesis by simp
    next
      case False
      with "2.prems" have "\<not> isWhiteSpace (hd cur)" by simp
      with step False \<open>isWhiteSpace c\<close> show ?thesis by simp
    qed
  next
    case False
    with "2.prems" "2.hyps"(2)[OF False] show ?thesis by simp
  qed
qed

lemma split_newline_not_Nil: "split_newline cur s \<noteq> []"
  by (induction cur s rule: split_newline.induct) simp_all

text \<open>
  Claim C3, as the code has it. At \<open>Words\<close> granularity \<open>splitText\<close> splits on runs of
  white space and drops the zero-length results, so every token is non-empty. The
  component under \<open>components/\<close> splits with the capturing pattern \<open>/(\s+)/\<close>, which
  keeps each run of white space as a token of its own: a token is either a run of white
  space or free of white space, neighbouring tokens are of different kinds (so every
  token is a whole run: the code units next to it in the text are of the other kind),
  and the tokens concatenate to the input. The second variant of the component splits
  with \<open>/\s+/\<close> and discards the white space: its tokens are non-empty and free of white
  space, and they are the tokens of the first variant that do not start with white
  space, that is, the whole runs of code units other than white space.
\<close>

theorem splitText_Words_tokens:
  "(\<forall>t \<in> set (splitText text Words).
      t \<noteq> [] \<and> ((\<forall>c \<in> set t. isWhiteSpace c) \<or> (\<forall>c \<in> set t. \<not> isWhiteSpace c))) \<and>
   (\<forall>i. Suc i < length (splitText text Words) \<longrightarrow>
      isWhiteSpace (hd (splitText text Words ! i))
        \<noteq> isWhiteSpace (hd (splitText text Words ! Suc i))) \<and>
   concat (splitText text Words) = text \<and>
   (\<forall>t \<in> set (splitText_part_000 text Words). t \<noteq> [] \<and> (\<forall>c \<in> set t. \<not> isWhiteSpace c)) \<and>
   splitText_part_000 text Words
     = filter (\<lambda>t. \<not> isWhiteSpace (hd t)) (splitText text Words)"
proof -
  have "t \<in> set (splitText text Words) \<Longrightarrow>
        t \<noteq> [] \<and> ((\<forall>c \<in> set t. isWhiteSpace c) \<or> (\<forall>c \<in> set t. \<not> isWhiteSpace c))" for t
    using split_whitespace_tokens[of "[]" t True "text"] by auto
  moreover have "Suc i < length (splitText text Words) \<Longrightarrow>
        isWhiteSpace (hd (splitText text Words ! i))
          \<noteq> isWhiteSpace (hd (splitText text Words ! Suc i))" for i
    using successively_nth[OF split_whitespace_alternates[of "[]" "text"], of i] by simp
  moreover have "concat (splitText text Words) = text"
    by (simp add: concat_filter_nonempty concat_split_whitespace)
  moreover have "t \<in> set (splitText_part_000 text Words) \<Longrightarrow>
        t \<noteq> [] \<and> (\<forall>c \<in> set t. \<not> isWhiteSpace c)" for t
    using split_whitespace_tokens[of "[]" t False "text"] by auto
  moreover have "splitText_part_000 text Words
     = filter (\<lambda>t. \<not> isWhiteSpace (hd t)) (splitText text Words)"
    using split_whitespace_no_capture[of "[]" "text"] by (simp add: conj_commute)
  ultimately show ?thesis by blast
qed

text \<open>
  The text \<open>a\<close>, two blanks, \<open>b\<close>: the two blanks are one token in the first variant
  and no token in the second.
\<close>

theorem splitText_Words_tokens_witness:
  "(let ts = splitText (js ''a  b'') Words in
      ts = [js ''a'', js ''  '', js ''b''] \<and>
      Suc 0 < length ts \<and> Suc 1 < length ts \<and>
      js ''  '' \<in> set ts \<and> js ''  '' \<noteq> [] \<and> list_all isWhiteSpace (js ''  '') \<and>
      isWhiteSpace (hd (ts ! 0)) \<noteq> isWhiteSpace (hd (ts ! Suc 0)) \<and>
      isWhiteSpace (hd (ts ! 1)) \<noteq> isWhiteSpace (hd (ts ! Suc 1)) \<and>
      concat ts = js ''a  b'') \<and>
   (let ws = splitText_part_000 (js ''a  b'') Words in
      ws = [js ''a'', js ''b''] \<and> js ''a'' \<in> set ws \<and>
      list_all (\<lambda>c. \<not> isWhiteSpace c) (js ''a''))"
proof -
  let ?ts = "splitText (js ''a  b'') Words"
  let ?ws = "splitText_part_000 (js ''a  b'') Words"
  have ts: "?ts = [js ''a'', js ''  '', js ''b'']" and ws: "?ws = [js ''a'', js ''b'']"
    by (simp_all add: js_def isWhiteSpace_def)
  have len: "Suc 0 < length ?ts" "Suc 1 < length ?ts" unfolding ts by simp_all
  have mem: "js ''  '' \<in> set ?ts" "js ''a'' \<in> set ?ws" unfolding ts ws by simp_all
  have blank: "isWhiteSpace (hd (js ''  ''))" by (simp add: js_def isWhiteSpace_def)
  note t = splitText_Words_tokens[of "js ''a  b''"]
  from t mem(1) have ne: "js ''  '' \<noteq> []"
    and kind: "(\<forall>c \<in> set (js ''  ''). isWhiteSpace c) \<or>
               (\<forall>c \<in> set (js ''  ''). \<not> isWhiteSpace c)"
    by blast+
  from ne have "hd (js ''  '') \<in> set (js ''  '')" by simp
  with kind blank have all: "list_all isWhiteSpace (js ''  '')"
    unfolding list_all_iff by blast
  from t mem(2) have free: "list_all (\<lambda>c. \<not> isWhiteSpace c) (js ''a'')"
    unfolding list_all_iff by blast
  from t len have alt:
    "isWhiteSpace (hd (?ts ! 0)) \<noteq> isWhiteSpace (hd (?ts ! Suc 0))"
    "isWhiteSpace (hd (?ts ! 1)) \<noteq> isWhiteSpace (hd (?ts ! Suc 1))"
    by blast+
  from t have cat: "concat ?ts = js ''a  b''" by blast
  show ?thesis
    unfolding Let_def using ts ws len mem ne all free alt cat by blast
qed

text \<open>
  The claim as stated fails for the component under \<open>components/\<close>: the text \<open>a b\<close>
  gives three tokens, and the second one is the blank.
\<close>

theorem splitText_Words_keeps_whitespace:
  "splitText (js ''a b'') Words = [js ''a'', js '' '', js ''b''] \<and> isWhiteSpace (hd (js '' ''))"
  by (simp add: js_def isWhiteSpace_def)

text \<open>
  Claim C4, as the code has it. \<open>splitText\<close> is a total function (no branch of it
  throws). On the empty string it returns the empty sequence at \<open>Words\<close> and
  \<open>Characters\<close> granularity; at \<open>Lines\<close> granularity it returns one token, the empty
  line, and it never returns the empty sequence there. Both variants agree.
\<close>

theorem splitText_empty:
  "splitText [] Words = [] \<and> splitText [] Characters = [] \<and> splitText [] Lines = [[]] \<and>
   splitText_part_000 [] Words = [] \<and> splitText_part_000 [] Characters = [] \<and>
   splitText_part_000 [] Lines = [[]] \<and>
   splitText text Lines \<noteq> [] \<and> splitText_part_000 text Lines \<noteq> []"
  by (simp add: split_newline_not_Nil)

text \<open>The claim as stated fails at \<open>Lines\<close> granularity on the empty string.\<close>

theorem splitText_Lines_empty_counterexample:
  "splitText [] Lines \<noteq> [] \<and> length (splitText [] Lines) = 1"
  by simp

section \<open>The aligner: one side empty\<close>

lemma computeDiff_Nil_left:
  "p \<in> set (computeDiff ct [] modified) \<Longrightarrow> line_type p = Added"
  by (auto simp: computeDiff_closed pair_at_def)

lemma computeDiff_Nil_right:
  "p \<in> set (computeDiff ct original []) \<Longrightarrow> line_type p = Removed"
  by (auto simp: computeDiff_closed pair_at_def)

lemma computeDiff_single_left:
  assumes "modified \<noteq> []"
  shows "computeDiff ct [x] modified \<noteq> [] \<and>
         line_type (hd (computeDiff ct [x] modified))
           = (if hd modified = x then Unchanged else Modified) \<and>
         (\<forall>p \<in> set (tl (computeDiff ct [x] modified)). line_type p = Added)"
proof -
  from assms obtain m ms where m: "modified = m # ms" by (cases modified) auto
  have "computeDiff ct [x] modified
      = map (pair_at ct [x] modified) [0 ..< Suc (length ms)]"
    by (simp add: computeDiff_closed m del: upt_Suc)
  also have "[0 ..< Suc (length ms)] = 0 # [Suc 0 ..< Suc (length ms)]"
    by (rule upt_conv_Cons) simp
  finally have eq: "computeDiff ct [x] modified
      = pair_at ct [x] modified 0 # map (pair_at ct [x] modified) [Suc 0 ..< Suc (length ms)]"
    by (simp only: list.map)
  show ?thesis
    unfolding eq by (auto simp: pair_at_def m simp del: upt_Suc)
qed

lemma computeDiff_single_right:
  assumes "original \<noteq> []"
  shows "computeDiff ct original [x] \<noteq> [] \<and>
         line_type (hd (computeDiff ct original [x]))
           = (if hd original = x then Unchanged else Modified) \<and>
         (\<forall>p \<in> set (tl (computeDiff ct original [x])). line_type p = Removed)"
proof -
  from assms obtain m ms where m: "original = m # ms" by (cases original) auto
  have "computeDiff ct original [x]
      = map (pair_at ct original [x]) [0 ..< Suc (length ms)]"
    by (simp add: computeDiff_closed m del: upt_Suc)
  also have "[0 ..< Suc (length ms)] = 0 # [Suc 0 ..< Suc (length ms)]"
    by (rule upt_conv_Cons) simp
  finally have eq: "computeDiff ct original [x]
      = pair_at ct original [x] 0 # map (pair_at ct original [x]) [Suc 0 ..< Suc (length ms)]"
    by (simp only: list.map)
  show ?thesis
    unfolding eq by (auto simp: pair_at_def m simp del: upt_Suc)
qed

lemma splitText_empty_not_Lines: "G \<noteq> Lines \<Longrightarrow> splitText [] G = []"
  by (cases G) simp_all

text \<open>
  Claim C5, as the code has it. At \<open>Words\<close> and \<open>Characters\<close> granularity the empty
  text has no token: against it every pair is \<open>added\<close> (empty original) or \<open>removed\<close>
  (empty modified), and two empty texts give no pair. At \<open>Lines\<close> granularity the empty
  text is one empty line: the first pair is \<open>unchanged\<close> when the other text starts with
  an empty line and \<open>modified\<close> otherwise, and every later pair is \<open>added\<close> (empty
  original) or \<open>removed\<close> (empty modified). When both texts are empty \<open>diffResult\<close>
  returns the empty sequence of blocks at every granularity, by its guard.
\<close>

theorem empty_side_pairs:
  "(G \<noteq> Lines \<longrightarrow>
      (\<forall>p \<in> set (computeDiff G (splitText [] G) (splitText B G)). line_type p = Added) \<and>
      (\<forall>p \<in> set (computeDiff G (splitText A G) (splitText [] G)). line_type p = Removed) \<and>
      computeDiff G (splitText [] G) (splitText [] G) = []) \<and>
   (let r = computeDiff Lines (splitText [] Lines) (splitText B Lines) in
      r \<noteq> [] \<and>
      line_type (hd r) = (if hd (splitText B Lines) = [] then Unchanged else Modified) \<and>
      (\<forall>p \<in> set (tl r). line_type p = Added)) \<and>
   (let r = computeDiff Lines (splitText A Lines) (splitText [] Lines) in
      r \<noteq> [] \<and>
      line_type (hd r) = (if hd (splitText A Lines) = [] then Unchanged else Modified) \<and>
      (\<forall>p \<in> set (tl r). line_type p = Removed)) \<and>
   diffResult [] [] G = []"
proof -
  have 1: "G \<noteq> Lines \<longrightarrow>
      (\<forall>p \<in> set (computeDiff G (splitText [] G) (splitText B G)). line_type p = Added) \<and>
      (\<forall>p \<in> set (computeDiff G (splitText A G) (splitText [] G)). line_type p = Removed) \<and>
      computeDiff G (splitText [] G) (splitText [] G) = []"
  proof
    assume "G \<noteq> Lines"
    then have e: "splitText [] G = []" by (rule splitText_empty_not_Lines)
    have "computeDiff G [] [] = []" by (simp add: computeDiff_closed)
    then show "(\<forall>p \<in> set (computeDiff G (splitText [] G) (splitText B G)). line_type p = Added) \<and>
      (\<forall>p \<in> set (computeDiff G (splitText A G) (splitText [] G)). line_type p = Removed) \<and>
      computeDiff G (splitText [] G) (splitText [] G) = []"
      unfolding e using computeDiff_Nil_left computeDiff_Nil_right by blast
  qed
  have b: "splitText B Lines \<noteq> []" and a: "splitText A Lines \<noteq> []"
    by (simp_all add: split_newline_not_Nil)
  have e: "splitText [] Lines = [[]]" by simp
  have 2: "let r = computeDiff Lines (splitText [] Lines) (splitText B Lines) in
      r \<noteq> [] \<and>
      line_type (hd r) = (if hd (splitText B Lines) = [] then Unchanged else Modified) \<and>
      (\<forall>p \<in> set (tl r). line_type p = Added)"
    unfolding e Let_def by (rule computeDiff_single_left[OF b, of Lines "[]"])
  have 3: "let r = computeDiff Lines (splitText A Lines) (splitText [] Lines) in
      r \<noteq> [] \<and>
      line_type (hd r) = (if hd (splitText A Lines) = [] then Unchanged else Modified) \<and>
      (\<forall>p \<in> set (tl r). line_type p = Removed)"
    unfolding e Let_def by (rule computeDiff_single_right[OF a, of Lines "[]"])
  have 4: "diffResult [] [] G = []" by (simp add: diffResult_def)
  from 1 2 3 4 show ?thesis by blast
qed

theorem empty_side_pairs_witness:
  "Words \<noteq> Lines \<and>
   (let r = computeDiff Words (splitText [] Words) (splitText (js ''a\<newline>b'') Words) in
      length r = 3 \<and> r ! 0 \<in> set r \<and> line_type (r ! 0) = Added) \<and>
   (let r = computeDiff Words (splitText (js ''a\<newline>b'') Words) (splitText [] Words) in
      length r = 3 \<and> r ! 0 \<in> set r \<and> line_type (r ! 0) = Removed) \<and>
   (let r = computeDiff Lines (splitText [] Lines) (splitText (js ''a\<newline>b'') Lines) in
      length r = 2 \<and> line_type (hd r) = Modified \<and>
      hd (tl r) \<in> set (tl r) \<and> line_type (hd (tl r)) = Added) \<and>
   (let r = computeDiff Lines (splitText (js ''a\<newline>b'') Lines) (splitText [] Lines) in
      length r = 2 \<and> line_type (hd r) = Modified \<and>
      hd (tl r) \<in> set (tl r) \<and> line_type (hd (tl r)) = Removed)"
proof -
  let ?t = "js ''a\<newline>b''"
  let ?wl = "computeDiff Words (splitText [] Words) (splitText ?t Words)"
  let ?wr = "computeDiff Words (splitText ?t Words) (splitText [] Words)"
  let ?ll = "computeDiff Lines (splitText [] Lines) (splitText ?t Lines)"
  let ?lr = "computeDiff Lines (splitText ?t Lines) (splitText [] Lines)"
  have g: "Words \<noteq> Lines" by simp
  have len: "length ?wl = 3" "length ?wr = 3" "length ?ll = 2" "length ?lr = 2"
    by (simp_all add: length_computeDiff js_def isWhiteSpace_def)
  then have mem: "?wl ! 0 \<in> set ?wl" "?wr ! 0 \<in> set ?wr" by simp_all
  from len have "tl ?ll \<noteq> []" "tl ?lr \<noteq> []"
    by (metis length_tl list.size(3) diff_Suc_1 numeral_2_eq_2 nat.distinct(1))+
  then have memt: "hd (tl ?ll) \<in> set (tl ?ll)" "hd (tl ?lr) \<in> set (tl ?lr)" by simp_all
  have h: "hd (splitText ?t Lines) \<noteq> []" by (simp add: js_def)
  note t = empty_side_pairs[of Words ?t ?t, unfolded Let_def]
  from t g mem have w: "line_type (?wl ! 0) = Added" "line_type (?wr ! 0) = Removed"
    by blast+
  from t h have l: "line_type (hd ?ll) = Modified" "line_type (hd ?lr) = Modified"
    by simp_all
  from t memt have l': "line_type (hd (tl ?ll)) = Added" "line_type (hd (tl ?lr)) = Removed"
    by blast+
  show ?thesis
    unfolding Let_def using g len mem memt w l l' by blast
qed

text \<open>
  The claim as stated fails at \<open>Lines\<close> granularity: the empty text against the text
  \<open>x\<close> gives one pair, and it is \<open>modified\<close>.
\<close>

theorem empty_original_Lines_counterexample:
  "computeDiff Lines (splitText [] Lines) (splitText (js ''x'') Lines) =
     [\<lparr>line_type = Modified, originalContent = [], modifiedContent = js ''x'',
       originalLineNumber = 1, modifiedLineNumber = 1\<rparr>]"
  by (simp add: js_def computeDiff_closed pair_at_def line_number_at_def)

section \<open>The block grouper\<close>

lemma group_line_inv:
  assumes "group_inv s"
  shows "group_inv (group_line s l) \<and>
         concat (map lines (blocks (group_line s l))) = concat (map lines (blocks s)) @ [l]"
proof (cases "currentBlock s")
  case None
  with assms have "blocks s = []" by (simp add: group_inv_def)
  with None show ?thesis by (simp add: group_line_def group_inv_def)
next
  case (Some r)
  with assms have ne: "blocks s \<noteq> []" and r: "r = length (blocks s) - 1"
    by (simp_all add: group_inv_def)
  then obtain bs b where bs: "blocks s = bs @ [b]" by (meson rev_exhaust)
  with r have r': "r = length bs" by simp
  show ?thesis
    using Some by (simp add: group_line_def group_inv_def bs r')
qed

lemma foldl_group_line:
  "group_inv s \<Longrightarrow>
   concat (map lines (blocks (foldl group_line s ls))) = concat (map lines (blocks s)) @ ls"
proof (induction ls arbitrary: s)
  case Nil
  then show ?case by simp
next
  case (Cons l ls)
  from group_line_inv[OF Cons.prems, of l] Cons.IH[of "group_line s l"]
  show ?case by simp
qed

text \<open>
  Claim C7. For every sequence of classified pairs, the \<open>lines\<close> of the blocks that
  \<open>groupDiffBlocks\<close> returns, concatenated in block order, are the input sequence: no
  pair is dropped, duplicated or moved, and the blocks neither overlap nor leave a gap.
\<close>

theorem groupDiffBlocks_concat:
  "concat (map lines (groupDiffBlocks diffLines)) = diffLines"
  using foldl_group_line[of "\<lparr>blocks = [], currentBlock = None\<rparr>" diffLines]
  by (simp add: groupDiffBlocks_def group_inv_def)

section \<open>Copying to the clipboard\<close>

lemma handleCopy_never_throws: "fst (handleCopy refusal text w) = None"
  by (simp add: handleCopy_def try_catch_def seq_def clipboard_writeText_def alert_def
      console_error_def split: option.splits)

text \<open>
  Claim C9. For every text passed to \<open>handleCopy\<close>: when the clipboard write fails, the
  failure is caught (\<open>handleCopy\<close> completes without throwing), the user is notified
  with an \<open>alert\<close>, the error is logged, the clipboard keeps its content, and the
  component's state is untouched, hence so are the blocks of \<open>diffResult\<close> and the
  statistics derived from them.
\<close>

theorem handleCopy_failure_is_local:
  assumes "refusal text = Some err"
  shows "fst (handleCopy refusal text w) = None \<and>
         alerts (snd (handleCopy refusal text w))
           = alerts w @ [js ''Failed to copy to clipboard''] \<and>
         console_errors (snd (handleCopy refusal text w))
           = console_errors w @ [(js ''Failed to copy:'', err)] \<and>
         clipboard (snd (handleCopy refusal text w)) = clipboard w \<and>
         originalSQL (snd (handleCopy refusal text w)) = originalSQL w \<and>
         modifiedSQL (snd (handleCopy refusal text w)) = modifiedSQL w \<and>
         comparisonType (snd (handleCopy refusal text w)) = comparisonType w \<and>
         page_diffResult (snd (handleCopy refusal text w)) = page_diffResult w \<and>
         page_stats (snd (handleCopy refusal text w)) = page_stats w"
  using assms
  by (simp add: handleCopy_def try_catch_def seq_def clipboard_writeText_def alert_def
      console_error_def page_diffResult_def page_stats_def)

theorem handleCopy_failure_is_local_witness:
  "(\<lambda>t. Some ''NotAllowedError'') (js ''SELECT 1'') = Some ''NotAllowedError'' \<and>
   (let w = \<lparr>originalSQL = js ''SELECT 1'', modifiedSQL = js ''SELECT 2'',
             comparisonType = Lines, showUnchanged = False, clipboard = js ''old'',
             alerts = [], console_errors = []\<rparr>;
        r = handleCopy (\<lambda>t. Some ''NotAllowedError'') (js ''SELECT 2'') w
    in fst r = None \<and> alerts (snd r) = [js ''Failed to copy to clipboard''] \<and>
       clipboard (snd r) = js ''old'' \<and>
       page_diffResult (snd r) = page_diffResult w \<and> page_stats (snd r) = page_stats w)"
  using handleCopy_failure_is_local[of "\<lambda>t. Some ''NotAllowedError''" "js ''SELECT 2''"
      "''NotAllowedError''"
      "\<lparr>originalSQL = js ''SELECT 1'', modifiedSQL = js ''SELECT 2'',
        comparisonType = Lines, showUnchanged = False, clipboard = js ''old'',
        alerts = [], console_errors = []\<rparr>"]
  by (simp add: Let_def)

end
